theory Spec2Isabelle
  imports Main "HOL-Library.Multiset"
begin

section \<open>Data model of \<open>main.go\<close>\<close>

text \<open>
  Go strings are byte sequences, modelled as \<open>string\<close>. Host labels are ASCII, and on
  ASCII input \<open>strings.ToLower\<close> maps the bytes \<open>A\<close>..\<open>Z\<close> to \<open>a\<close>..\<open>z\<close> and leaves
  every other byte alone; bytes outside ASCII are left unchanged here.
\<close>

definition toLowerChar :: "char \<Rightarrow> char" where
  "toLowerChar c =
     (let n = (of_char c :: nat) in if 65 \<le> n \<and> n \<le> 90 then char_of (n + 32) else c)"

definition ToLower :: "string \<Rightarrow> string" where
  "ToLower s = map toLowerChar s"

text \<open>
  \<open>strings.Split(s, ".")\<close>: cut at the first dot, keep the part before it, go on with the
  part after it; the piece left when no dot remains is the last element.
\<close>

function Split_dot :: "string \<Rightarrow> string list" where
  "Split_dot s =
     (case dropWhile (\<lambda>c. c \<noteq> CHR ''.'') s of
        [] \<Rightarrow> [s]
      | _ # rest \<Rightarrow> takeWhile (\<lambda>c. c \<noteq> CHR ''.'') s # Split_dot rest)"
  by pat_completeness auto
termination
proof (relation "measure length")
  fix s :: string and x rest
  assume "dropWhile (\<lambda>c. c \<noteq> CHR ''.'') s = x # rest"
  then have "length (x # rest) \<le> length s"
    by (metis length_dropWhile_le)
  then show "(rest, s) \<in> measure length" by simp
qed simp

declare Split_dot.simps [simp del]

text \<open>\<open>getName\<close> (lines 57-64): normalize a name.\<close>

definition getName :: "string \<Rightarrow> string" where
  "getName name =
     (let s = Split_dot (ToLower name) in if length s > 0 then s ! 0 else [])"

text \<open>
  \<open>netip.Addr\<close> is used through two observations only, \<open>Is4()\<close> and \<open>String()\<close>; an
  address is modelled by the pair of them. \<open>ipnstate.PeerStatus\<close> is read through
  \<open>DNSName\<close> and \<open>TailscaleIPs\<close>. \<open>Status.Peer\<close> is a Go map ranged over in an
  unspecified order: \<open>Peer\<close> is the list of its values in the order the loop visits them.
\<close>

record Addr =
  Is4 :: bool
  ip_String :: string

record PeerStatus =
  DNSName :: string
  TailscaleIPs :: "Addr list"

record Status =
  Self :: PeerStatus
  Peer :: "PeerStatus list"

record DNSRecord =
  ID :: string
  Type :: string
  Name :: string
  Content :: string
  Comment :: string
  TTL :: int

record ListDNSRecordsParams =
  lp_Comment :: string
  lp_Page :: nat
  lp_PerPage :: nat

definition CloudflareSyncDNSComment :: string where
  "CloudflareSyncDNSComment = ''_tailscale''"

definition CloudflareDomainSuffix :: string where
  "CloudflareDomainSuffix = ''.int''"

type_synonym error = string

subsection \<open>The DNS provider\<close>

text \<open>
  The Cloudflare client is an external collaborator. It is a parameter of the model: three
  operations over a provider state \<open>'p\<close>, each returning its result and the next state.
  An error result is \<open>Inl\<close> (for the delete call, \<open>Some\<close>).
\<close>

record 'p API =
  ListDNSRecords :: "'p \<Rightarrow> ListDNSRecordsParams \<Rightarrow> (error + DNSRecord list) \<times> 'p"
  CreateDNSRecord :: "'p \<Rightarrow> DNSRecord \<Rightarrow> (error + DNSRecord) \<times> 'p"
  DeleteDNSRecord :: "'p \<Rightarrow> string \<Rightarrow> error option \<times> 'p"

datatype api_call =
    CallList ListDNSRecordsParams
  | CallCreate DNSRecord
  | CallDelete string

datatype api_result =
    ResList "error + DNSRecord list"
  | ResCreate "error + DNSRecord"
  | ResDelete "error option"

datatype log_msg =
    LogSyncStart
  | LogListErr error
  | LogNoHost
  | LogNeedAdd string
  | LogCreateErr error
  | LogAdded string
  | LogNeedRemove string
  | LogDeleteErr error
  | LogRemoved string
  | LogSyncEnd

text \<open>
  What a cycle does to the outside: the provider state, every API call issued with the
  result it got (in order), and the log lines written (in order).
\<close>

record 'p world =
  provider :: 'p
  events :: "(api_call \<times> api_result) list"
  logs :: "log_msg list"

definition Printf :: "log_msg \<Rightarrow> 'p world \<Rightarrow> 'p world" where
  "Printf m w = w\<lparr>logs := logs w @ [m]\<rparr>"

definition do_list ::
  "'p API \<Rightarrow> ListDNSRecordsParams \<Rightarrow> 'p world \<Rightarrow> (error + DNSRecord list) \<times> 'p world" where
  "do_list api ps w =
     (let (res, p') = ListDNSRecords api (provider w) ps
      in (res, w\<lparr>provider := p', events := events w @ [(CallList ps, ResList res)]\<rparr>))"

definition do_create ::
  "'p API \<Rightarrow> DNSRecord \<Rightarrow> 'p world \<Rightarrow> (error + DNSRecord) \<times> 'p world" where
  "do_create api r w =
     (let (res, p') = CreateDNSRecord api (provider w) r
      in (res, w\<lparr>provider := p', events := events w @ [(CallCreate r, ResCreate res)]\<rparr>))"

definition do_delete ::
  "'p API \<Rightarrow> string \<Rightarrow> 'p world \<Rightarrow> error option \<times> 'p world" where
  "do_delete api rid w =
     (let (res, p') = DeleteDNSRecord api (provider w) rid
      in (res, w\<lparr>provider := p', events := events w @ [(CallDelete rid, ResDelete res)]\<rparr>))"

subsection \<open>The set type\<close>

text \<open>
  \<open>mapset.Set[string]\<close> is a hash set. It is modelled as a list without duplicates;
  \<open>ToSlice\<close> returns the elements in an unspecified order, so the order is a parameter
  of \<open>sync\<close>: any function that returns a permutation of its argument. \<open>sync\<close> calls
  \<open>ToSlice\<close> twice (lines 118 and 123); the first slice is only measured, so one order
  function serves both calls.
\<close>

type_synonym mapset = "string list"

definition NewSet :: mapset where
  "NewSet = []"

definition Add :: "string \<Rightarrow> mapset \<Rightarrow> mapset" where
  "Add x s = (if x \<in> set s then s else s @ [x])"

definition Contains :: "mapset \<Rightarrow> string \<Rightarrow> bool" where
  "Contains s x \<longleftrightarrow> x \<in> set s"

definition SymmetricDifference :: "mapset \<Rightarrow> mapset \<Rightarrow> mapset" where
  "SymmetricDifference s other =
     filter (\<lambda>x. \<not> Contains other x) s @ filter (\<lambda>x. \<not> Contains s x) other"

definition slice_order :: "(mapset \<Rightarrow> string list) \<Rightarrow> bool" where
  "slice_order ToSlice \<longleftrightarrow> (\<forall>s. mset (ToSlice s) = mset s)"

section \<open>\<open>sync\<close> (lines 66-158)\<close>

text \<open>Lines 74-99: one mesh entry (the self entry, then each peer).\<close>

definition add_ips :: "string \<Rightarrow> Addr list \<Rightarrow> (string \<rightharpoonup> string) \<Rightarrow> (string \<rightharpoonup> string)" where
  "add_ips name ips tsMap =
     fold (\<lambda>ip m. if Is4 ip then m(name \<mapsto> ip_String ip) else m) ips tsMap"

definition add_entry ::
  "PeerStatus \<Rightarrow> mapset \<times> (string \<rightharpoonup> string) \<Rightarrow> mapset \<times> (string \<rightharpoonup> string)" where
  "add_entry ps acc =
     (let (ts, tsMap) = acc; name = getName (DNSName ps)
      in if name \<noteq> [] then (Add name ts, add_ips name (TailscaleIPs ps) tsMap)
         else (ts, tsMap))"

definition mesh_snapshot :: "Status \<Rightarrow> mapset \<times> (string \<rightharpoonup> string)" where
  "mesh_snapshot st = fold add_entry (Peer st) (add_entry (Self st) (NewSet, Map.empty))"

text \<open>Lines 111-117: one listed record.\<close>

definition add_record ::
  "DNSRecord \<Rightarrow> mapset \<times> (string \<rightharpoonup> string) \<Rightarrow> mapset \<times> (string \<rightharpoonup> string)" where
  "add_record r acc =
     (let (cf, cfMap) = acc; name = getName (Name r)
      in if name \<noteq> [] then (Add (getName (Name r)) cf, cfMap(name \<mapsto> ID r))
         else (cf, cfMap))"

definition managed_snapshot :: "DNSRecord list \<Rightarrow> mapset \<times> (string \<rightharpoonup> string)" where
  "managed_snapshot records = fold add_record records (NewSet, Map.empty)"

text \<open>
  Lines 124-142, the first \<open>if\<close> of the loop body. The flag is \<open>True\<close> when the branch
  ended in \<open>continue\<close>, so that the second \<open>if\<close> is not reached.
\<close>

definition create_record_params :: "string \<Rightarrow> string \<Rightarrow> DNSRecord" where
  "create_record_params name ip =
     \<lparr>ID = [], Type = ''A'', Name = name @ CloudflareDomainSuffix, Content = ip,
      Comment = CloudflareSyncDNSComment, TTL = 1\<rparr>"

definition create_step ::
  "'p API \<Rightarrow> mapset \<Rightarrow> (string \<rightharpoonup> string) \<Rightarrow> string \<Rightarrow> 'p world \<Rightarrow> bool \<times> 'p world" where
  "create_step api ts tsMap name w =
     (if Contains ts name then
        (case tsMap name of
           None \<Rightarrow> (True, w)
         | Some ip \<Rightarrow>
             (let w1 = Printf (LogNeedAdd name) w;
                  (res, w2) = do_create api (create_record_params name ip) w1
              in case res of
                   Inl err \<Rightarrow> (True, Printf (LogCreateErr err) w2)
                 | Inr _ \<Rightarrow> (False, Printf (LogAdded name) w2)))
      else (False, w))"

text \<open>Lines 143-155, the second \<open>if\<close> of the loop body.\<close>

definition delete_step ::
  "'p API \<Rightarrow> mapset \<Rightarrow> (string \<rightharpoonup> string) \<Rightarrow> string \<Rightarrow> 'p world \<Rightarrow> 'p world" where
  "delete_step api cf cfMap name w =
     (if Contains cf name then
        (case cfMap name of
           None \<Rightarrow> w
         | Some recordID \<Rightarrow>
             (let w1 = Printf (LogNeedRemove name) w;
                  (res, w2) = do_delete api recordID w1
              in case res of
                   Some err \<Rightarrow> Printf (LogDeleteErr err) w2
                 | None \<Rightarrow> Printf (LogRemoved name) w2))
      else w)"

definition sync_name ::
  "'p API \<Rightarrow> mapset \<Rightarrow> (string \<rightharpoonup> string) \<Rightarrow> mapset \<Rightarrow> (string \<rightharpoonup> string) \<Rightarrow>
   string \<Rightarrow> 'p world \<Rightarrow> 'p world" where
  "sync_name api ts tsMap cf cfMap name w =
     (let (continue, w1) = create_step api ts tsMap name w
      in if continue then w1 else delete_step api cf cfMap name w1)"

definition list_params :: ListDNSRecordsParams where
  "list_params = \<lparr>lp_Comment = CloudflareSyncDNSComment, lp_Page = 0, lp_PerPage = 1000\<rparr>"

definition sync ::
  "(mapset \<Rightarrow> string list) \<Rightarrow> 'p API \<Rightarrow> Status \<Rightarrow> 'p world \<Rightarrow> 'p world" where
  "sync ToSlice api st w0 =
     (let w1 = Printf LogSyncStart w0;
          (ts, tsMap) = mesh_snapshot st;
          (res, w2) = do_list api list_params w1
      in case res of
           Inl err \<Rightarrow> Printf (LogListErr err) w2
         | Inr records \<Rightarrow>
             (let (cf, cfMap) = managed_snapshot records;
                  needToSync = ToSlice (SymmetricDifference ts cf)
              in if length needToSync = 0 then Printf LogNoHost w2
                 else Printf LogSyncEnd
                        (fold (sync_name api ts tsMap cf cfMap)
                           (ToSlice (SymmetricDifference ts cf)) w2)))"

definition world0 :: "'p \<Rightarrow> 'p world" where
  "world0 p = \<lparr>provider = p, events = [], logs = []\<rparr>"

section \<open>Observations on a cycle\<close>

text \<open>The API calls issued, in order, without their results.\<close>

definition calls :: "'p world \<Rightarrow> api_call list" where
  "calls w = map fst (events w)"

text \<open>
  The mesh entries in the order \<open>sync\<close> goes through them: the self entry (lines 75-86),
  then the peers (lines 88-99). \<open>v4_addrs\<close> lists the IPv4 addresses of an entry, printed,
  in the order of \<open>TailscaleIPs\<close>.
\<close>

definition entries :: "Status \<Rightarrow> PeerStatus list" where
  "entries st = Self st # Peer st"

definition v4_addrs :: "PeerStatus \<Rightarrow> string list" where
  "v4_addrs ps = map ip_String (filter Is4 (TailscaleIPs ps))"

text \<open>The set computed at line 118 from a mesh status and a record listing.\<close>

definition ReconciliationSet :: "Status \<Rightarrow> DNSRecord list \<Rightarrow> mapset" where
  "ReconciliationSet st records =
     SymmetricDifference (fst (mesh_snapshot st)) (fst (managed_snapshot records))"

text \<open>
  The calls the loop body decides on for a name that is not in both sets: they depend on
  the two directories only.
\<close>

definition decided ::
  "mapset \<Rightarrow> (string \<rightharpoonup> string) \<Rightarrow> mapset \<Rightarrow> (string \<rightharpoonup> string) \<Rightarrow> string \<Rightarrow> api_call list" where
  "decided ts tsMap cf cfMap name =
     (if Contains ts name then
        (case tsMap name of None \<Rightarrow> [] | Some ip \<Rightarrow> [CallCreate (create_record_params name ip)])
      else if Contains cf name then
        (case cfMap name of None \<Rightarrow> [] | Some recordID \<Rightarrow> [CallDelete recordID])
      else [])"

text \<open>
  The specification's wording of the normalizer is "the lowercase value of the first
  dot-separated segment": \<open>first_segment\<close> is the segment, \<open>ToLower\<close> its lowercase value.
\<close>

definition first_segment :: "string \<Rightarrow> string" where
  "first_segment s = takeWhile (\<lambda>c. c \<noteq> CHR ''.'') s"

section \<open>The environment\<close>

text \<open>
  What a successful call does to the managed records of the zone: a create adds the record
  it was given, under an identifier chosen by the provider (\<open>new_id\<close>); a delete removes
  the record with the identifier; a listing changes nothing. A failed call changes nothing.
\<close>

definition apply_call ::
  "(DNSRecord list \<Rightarrow> DNSRecord \<Rightarrow> string) \<Rightarrow> api_call \<Rightarrow> DNSRecord list \<Rightarrow> DNSRecord list" where
  "apply_call new_id c z =
     (case c of
        CallList ps \<Rightarrow> z
      | CallCreate r \<Rightarrow> z @ [r\<lparr>ID := new_id z r\<rparr>]
      | CallDelete rid \<Rightarrow> filter (\<lambda>r. ID r \<noteq> rid) z)"

definition succeeded :: "api_result \<Rightarrow> bool" where
  "succeeded res =
     (case res of
        ResList l \<Rightarrow> (case l of Inl err \<Rightarrow> False | Inr rs \<Rightarrow> True)
      | ResCreate c \<Rightarrow> (case c of Inl err \<Rightarrow> False | Inr r \<Rightarrow> True)
      | ResDelete d \<Rightarrow> (case d of Some err \<Rightarrow> False | None \<Rightarrow> True))"

definition apply_event ::
  "(DNSRecord list \<Rightarrow> DNSRecord \<Rightarrow> string) \<Rightarrow> api_call \<times> api_result \<Rightarrow>
   DNSRecord list \<Rightarrow> DNSRecord list" where
  "apply_event new_id ev z = (if succeeded (snd ev) then apply_call new_id (fst ev) z else z)"

definition records_after ::
  "(DNSRecord list \<Rightarrow> DNSRecord \<Rightarrow> string) \<Rightarrow> (api_call \<times> api_result) list \<Rightarrow>
   DNSRecord list \<Rightarrow> DNSRecord list" where
  "records_after new_id evs z = fold (apply_event new_id) evs z"

text \<open>
  A provider kept in memory, for running \<open>sync\<close> on concrete inputs. Its state is the list
  of records of the zone. A listing request is answered with one page: the records carrying
  the requested comment, \<open>PerPage\<close> of them, from page \<open>Page\<close> (page 1 when unset). The two
  predicates say which create and delete calls fail.
\<close>

definition page_of :: "ListDNSRecordsParams \<Rightarrow> DNSRecord list \<Rightarrow> DNSRecord list" where
  "page_of ps rs = take (lp_PerPage ps) (drop ((lp_Page ps - 1) * lp_PerPage ps) rs)"

definition zone_api ::
  "(DNSRecord \<Rightarrow> bool) \<Rightarrow> (string \<Rightarrow> bool) \<Rightarrow> (DNSRecord list \<Rightarrow> DNSRecord \<Rightarrow> string) \<Rightarrow>
   (DNSRecord list) API" where
  "zone_api create_fails delete_fails new_id =
     \<lparr>ListDNSRecords =
        (\<lambda>z ps. (Inr (page_of ps (filter (\<lambda>r. Comment r = lp_Comment ps) z)), z)),
      CreateDNSRecord =
        (\<lambda>z r. if create_fails r then (Inl ''create failed'', z)
                else (let r' = r\<lparr>ID := new_id z r\<rparr> in (Inr r', z @ [r']))),
      DeleteDNSRecord =
        (\<lambda>z rid. if delete_fails rid then (Some ''delete failed'', z)
                  else (None, filter (\<lambda>r. ID r \<noteq> rid) z))\<rparr>"

definition never :: "'a \<Rightarrow> bool" where
  "never x = False"


definition id_of_name :: "DNSRecord list \<Rightarrow> DNSRecord \<Rightarrow> string" where
  "id_of_name z r = ''new-'' @ Name r"

text \<open>The same provider with the listing out of order.\<close>

definition list_down_api :: "(DNSRecord list) API" where
  "list_down_api =
     (zone_api never never id_of_name)\<lparr>ListDNSRecords := (\<lambda>z ps. (Inl ''list failed'', z))\<rparr>"

subsection \<open>Example inputs\<close>

definition v4 :: "string \<Rightarrow> Addr" where
  "v4 s = \<lparr>Is4 = True, ip_String = s\<rparr>"

definition v6 :: "string \<Rightarrow> Addr" where
  "v6 s = \<lparr>Is4 = False, ip_String = s\<rparr>"

definition node :: "string \<Rightarrow> Addr list \<Rightarrow> PeerStatus" where
  "node name ips = \<lparr>DNSName = name, TailscaleIPs = ips\<rparr>"

definition managed :: "string \<Rightarrow> string \<Rightarrow> string \<Rightarrow> DNSRecord" where
  "managed rid name ip =
     \<lparr>ID = rid, Type = ''A'', Name = name, Content = ip,
      Comment = CloudflareSyncDNSComment, TTL = 1\<rparr>"

text \<open>The convergence scenario: the mesh has \<open>a\<close> and \<open>b\<close>, the zone has \<open>b\<close> and \<open>c\<close>.\<close>

definition st_ab :: Status where
  "st_ab =
     \<lparr>Self = node ''a.tail.ts.net.'' [v4 ''100.64.0.1'', v6 ''fd7a::1''],
      Peer = [node ''b.tail.ts.net.'' [v6 ''fd7a::2'', v4 ''100.64.0.2'']]\<rparr>"

definition zone_bc :: "DNSRecord list" where
  "zone_bc =
     [managed ''id-b'' ''b.int.example.com'' ''100.64.0.2'',
      managed ''id-c'' ''c.int.example.com'' ''100.64.0.3'']"

text \<open>A mesh in sync with \<open>zone_bc\<close>.\<close>

definition st_bc :: Status where
  "st_bc =
     \<lparr>Self = node ''b.tail.ts.net.'' [v4 ''100.64.0.2''],
      Peer = [node ''c.tail.ts.net.'' [v4 ''100.64.0.3'']]\<rparr>"

text \<open>A node with two IPv4 addresses.\<close>

definition st_two_v4 :: Status where
  "st_two_v4 = \<lparr>Self = node ''a.tail.ts.net.'' [v4 ''100.64.0.1'', v4 ''100.64.0.9''], Peer = []\<rparr>"

text \<open>A node without an IPv4 address, alone in the mesh.\<close>

definition st_x :: Status where
  "st_x = \<lparr>Self = node ''x.tail.ts.net.'' [v6 ''fd7a::7''], Peer = []\<rparr>"

text \<open>
  Two entries that normalize to \<open>x\<close>: the first observed has an IPv4 address, the second
  has none.
\<close>

definition st_xx :: Status where
  "st_xx =
     \<lparr>Self = node ''x.tail.ts.net.'' [v4 ''100.64.0.7''],
      Peer = [node ''x.other.ts.net.'' [v6 ''fd7a::7'']]\<rparr>"

text \<open>
  A mesh of 1001 nodes, \<open>z\<close> and \<open>h0\<close> .. \<open>h999\<close>, and a zone with one managed record for
  each of them; the record of \<open>z\<close> is the last one.
\<close>

fun dec :: "nat \<Rightarrow> string" where
  "dec n = (if n < 10 then [char_of (48 + n)] else dec (n div 10) @ [char_of (48 + n mod 10)])"

declare dec.simps [simp del]

definition host :: "nat \<Rightarrow> string" where
  "host i = ''h'' @ dec i"

definition host_ip :: "nat \<Rightarrow> string" where
  "host_ip i = ''100.64.'' @ dec (4 + i div 250) @ ''.'' @ dec (1 + i mod 250)"

definition host_record :: "nat \<Rightarrow> DNSRecord" where
  "host_record i = managed (''id-'' @ dec i) (host i @ ''.int.example.com'') (host_ip i)"

definition host_node :: "nat \<Rightarrow> PeerStatus" where
  "host_node i = node (host i @ ''.tail.ts.net.'') [v4 (host_ip i)]"

definition zone_1001 :: "DNSRecord list" where
  "zone_1001 =
     map host_record [0..<1000] @ [managed ''id-z'' ''z.int.example.com'' ''100.64.0.26'']"

definition st_1001 :: Status where
  "st_1001 =
     \<lparr>Self = node ''z.tail.ts.net.'' [v4 ''100.64.0.26''], Peer = map host_node [0..<1000]\<rparr>"

text \<open>Two entries that normalize to \<open>x\<close>, both with an IPv4 address.\<close>

definition st_xx4 :: Status where
  "st_xx4 =
     \<lparr>Self = node ''x.tail.ts.net.'' [v4 ''100.64.0.7''],
      Peer = [node ''x.other.ts.net.'' [v4 ''100.64.0.8'']]\<rparr>"

text \<open>
  A mesh whose addressed names are those of \<open>zone_bc\<close>, with one more node that has no
  IPv4 address.
\<close>

definition st_bcx :: Status where
  "st_bcx =
     \<lparr>Self = node ''b.tail.ts.net.'' [v4 ''100.64.0.2''],
      Peer = [node ''x.tail.ts.net.'' [v6 ''fd7a::7''],
              node ''c.tail.ts.net.'' [v4 ''100.64.0.3'']]\<rparr>"

section \<open>The name normalizer\<close>

lemma Split_dot_not_Nil: "Split_dot s \<noteq> []"
  by (subst Split_dot.simps) (simp split: list.split)

lemma Split_dot_first: "Split_dot s ! 0 = takeWhile (\<lambda>c. c \<noteq> CHR ''.'') s"
proof (cases "dropWhile (\<lambda>c. c \<noteq> CHR ''.'') s")
  case Nil
  then have "takeWhile (\<lambda>c. c \<noteq> CHR ''.'') s = s"
    by (simp add: dropWhile_eq_Nil_conv)
  then show ?thesis
    by (subst Split_dot.simps) (simp only: Nil list.case nth_Cons_0)
next
  case (Cons x rest)
  show ?thesis
    by (subst Split_dot.simps) (simp only: Cons list.case nth_Cons_0)
qed

lemma toLowerChar_dot: "toLowerChar c \<noteq> CHR ''.'' \<longleftrightarrow> c \<noteq> CHR ''.''"
proof (cases "65 \<le> (of_char c :: nat) \<and> (of_char c :: nat) \<le> 90")
  case True
  then have "of_char (char_of (of_char c + 32 :: nat)) = (of_char c + 32 :: nat)"
    by (simp add: of_char_of)
  with True have "(of_char (toLowerChar c) :: nat) \<noteq> 46" and "(of_char c :: nat) \<noteq> 46"
    by (simp_all add: toLowerChar_def)
  then show ?thesis by auto
next
  case False
  then show ?thesis by (auto simp: toLowerChar_def)
qed

lemma getName_first: "getName s = ToLower (first_segment s)"
proof -
  have "(\<lambda>c. c \<noteq> CHR ''.'') \<circ> toLowerChar = (\<lambda>c. c \<noteq> CHR ''.'')"
    by (rule ext) (simp add: toLowerChar_dot)
  then show ?thesis
    by (simp add: getName_def Let_def Split_dot_not_Nil Split_dot_first ToLower_def
        first_segment_def takeWhile_map)
qed


section \<open>Evaluating the examples\<close>

lemmas world_defs = Printf_def do_list_def do_create_def do_delete_def world0_def

lemmas eval_defs = mesh_snapshot_def managed_snapshot_def node_def v4_def v6_def managed_def
  add_entry_def add_ips_def add_record_def getName_def ToLower_def toLowerChar_def
  Split_dot.simps NewSet_def Add_def Let_def

lemma slice_order_rev: "slice_order rev"
  by (simp add: slice_order_def)

lemma mesh_bc: "fst (mesh_snapshot st_bc) = [''b'', ''c'']"
  by (simp add: st_bc_def eval_defs)

lemma managed_bc: "fst (managed_snapshot zone_bc) = [''b'', ''c'']"
  by (simp add: zone_bc_def eval_defs)

lemma list_bc:
  "ListDNSRecords (zone_api cfail dfail nid) zone_bc list_params = (Inr zone_bc, zone_bc)"
  by (simp add: zone_api_def page_of_def list_params_def zone_bc_def managed_def)

section \<open>A cycle whose listing fails\<close>

lemma slice_order_Nil: "slice_order ToSlice \<Longrightarrow> ToSlice [] = []"
  by (metis slice_order_def mset_zero_iff)

lemma slice_order_set: "slice_order ToSlice \<Longrightarrow> set (ToSlice s) = set s"
  by (metis slice_order_def mset_eq_setD)

lemma SymmetricDifference_same: "set s = set t \<Longrightarrow> SymmetricDifference s t = []"
  by (simp add: SymmetricDifference_def Contains_def)

text \<open>
  C2. When the listing call returns an error, the cycle ends there: the listing is the
  only API call issued, so no create and no delete is issued, and the provider is left in
  the state the listing call returned.
\<close>

theorem sync_list_error:
  assumes "ListDNSRecords api p list_params = (Inl err, p')"
  shows "sync ToSlice api st (world0 p) =
           \<lparr>provider = p', events = [(CallList list_params, ResList (Inl err))],
            logs = [LogSyncStart, LogListErr err]\<rparr>
         \<and> calls (sync ToSlice api st (world0 p)) = [CallList list_params]"
  using assms by (simp add: sync_def calls_def world_defs split: prod.split)

theorem sync_list_error_witness:
  "sync rev list_down_api st_ab (world0 zone_bc) =
     \<lparr>provider = zone_bc, events = [(CallList list_params, ResList (Inl ''list failed''))],
      logs = [LogSyncStart, LogListErr ''list failed'']\<rparr>
   \<and> calls (sync rev list_down_api st_ab (world0 zone_bc)) = [CallList list_params]"
proof -
  have "ListDNSRecords list_down_api zone_bc list_params = (Inl ''list failed'', zone_bc)"
    by (simp add: list_down_api_def)
  from sync_list_error [OF this] show ?thesis .
qed

section \<open>The reconciliation loop\<close>

lemma sync_name_skip:
  "Contains ts n \<Longrightarrow> tsMap n = None \<Longrightarrow> sync_name api ts tsMap cf cfMap n w = w"
  by (simp add: sync_name_def create_step_def)

lemma sync_name_create:
  assumes "Contains ts n" and "\<not> Contains cf n" and "tsMap n = Some ip"
  shows "sync_name api ts tsMap cf cfMap n w =
           \<lparr>provider = snd (CreateDNSRecord api (provider w) (create_record_params n ip)),
            events = events w @
              [(CallCreate (create_record_params n ip),
                ResCreate (fst (CreateDNSRecord api (provider w) (create_record_params n ip))))],
            logs = logs w @
              [LogNeedAdd n,
               case fst (CreateDNSRecord api (provider w) (create_record_params n ip)) of
                 Inl err \<Rightarrow> LogCreateErr err | Inr _ \<Rightarrow> LogAdded n]\<rparr>"
  using assms
  by (simp add: sync_name_def create_step_def delete_step_def world_defs case_prod_beta Let_def
      split: sum.split)

lemma sync_name_delete:
  assumes "\<not> Contains ts n" and "Contains cf n" and "cfMap n = Some rid"
  shows "sync_name api ts tsMap cf cfMap n w =
           \<lparr>provider = snd (DeleteDNSRecord api (provider w) rid),
            events = events w @
              [(CallDelete rid, ResDelete (fst (DeleteDNSRecord api (provider w) rid)))],
            logs = logs w @
              [LogNeedRemove n,
               case fst (DeleteDNSRecord api (provider w) rid) of
                 Some err \<Rightarrow> LogDeleteErr err | None \<Rightarrow> LogRemoved n]\<rparr>"
  using assms
  by (simp add: sync_name_def create_step_def delete_step_def world_defs case_prod_beta Let_def
      split: option.split)

lemma sync_name_absent:
  "\<not> Contains ts n \<Longrightarrow> \<not> Contains cf n \<or> cfMap n = None \<Longrightarrow>
   sync_name api ts tsMap cf cfMap n w = w"
  by (auto simp: sync_name_def create_step_def delete_step_def)

lemma calls_sync_name:
  assumes "\<not> (Contains ts n \<and> Contains cf n)"
  shows "calls (sync_name api ts tsMap cf cfMap n w) = calls w @ decided ts tsMap cf cfMap n"
proof (cases "Contains ts n")
  case True
  then show ?thesis
    using assms
    by (cases "tsMap n") (simp_all add: sync_name_skip sync_name_create decided_def calls_def)
next
  case False
  then show ?thesis
    by (cases "Contains cf n"; cases "cfMap n")
       (simp_all add: sync_name_absent sync_name_delete decided_def calls_def)
qed

lemma calls_fold_sync_name:
  assumes "\<forall>n\<in>set ns. \<not> (Contains ts n \<and> Contains cf n)"
  shows "calls (fold (sync_name api ts tsMap cf cfMap) ns w) =
           calls w @ concat (map (decided ts tsMap cf cfMap) ns)"
  using assms by (induction ns arbitrary: w) (simp_all add: calls_sync_name)

lemma SymmetricDifference_set:
  "set (SymmetricDifference s t) = (set s - set t) \<union> (set t - set s)"
  by (auto simp: SymmetricDifference_def Contains_def)

lemma calls_Printf: "calls (Printf m w) = calls w"
  by (simp add: calls_def Printf_def)

lemma calls_sync:
  assumes "slice_order ToSlice"
    and "ListDNSRecords api p list_params = (Inr records, p')"
  shows "calls (sync ToSlice api st (world0 p)) =
           CallList list_params #
           concat (map (decided (fst (mesh_snapshot st)) (snd (mesh_snapshot st))
                          (fst (managed_snapshot records)) (snd (managed_snapshot records)))
                     (ToSlice (ReconciliationSet st records)))"
proof -
  let ?ts = "fst (mesh_snapshot st)" and ?cf = "fst (managed_snapshot records)"
  let ?ns = "ToSlice (SymmetricDifference ?ts ?cf)"
  let ?w2 = "snd (do_list api list_params (Printf LogSyncStart (world0 p)))"
  have w2: "calls ?w2 = [CallList list_params]"
    using assms(2) by (simp add: calls_def world_defs)
  have "\<forall>n\<in>set ?ns. \<not> (Contains ?ts n \<and> Contains ?cf n)"
    using assms(1) by (auto simp: slice_order_set SymmetricDifference_set Contains_def)
  then have loop: "calls (fold (sync_name api ?ts (snd (mesh_snapshot st)) ?cf
                      (snd (managed_snapshot records))) ?ns ?w2) =
                   calls ?w2 @ concat (map (decided ?ts (snd (mesh_snapshot st)) ?cf
                      (snd (managed_snapshot records))) ?ns)"
    by (rule calls_fold_sync_name)
  have res: "fst (do_list api list_params (Printf LogSyncStart (world0 p))) = Inr records"
    using assms(2) by (simp add: world_defs)
  show ?thesis
    unfolding sync_def ReconciliationSet_def case_prod_beta Let_def res
    by (simp add: calls_Printf loop w2)
qed

lemma logs_sync_end:
  assumes "slice_order ToSlice"
    and "ListDNSRecords api p list_params = (Inr records, p')"
    and "ReconciliationSet st records \<noteq> []"
  shows "last (logs (sync ToSlice api st (world0 p))) = LogSyncEnd"
proof -
  have "set (ToSlice (ReconciliationSet st records)) \<noteq> {}"
    using assms(1,3) by (simp add: slice_order_set)
  then have "ToSlice (ReconciliationSet st records) \<noteq> []" by auto
  then show ?thesis
    using assms(2)
    by (simp add: sync_def ReconciliationSet_def case_prod_beta Let_def world_defs)
qed

lemma distinct_Add: "distinct s \<Longrightarrow> distinct (Add x s)"
  by (simp add: Add_def)

lemma set_Add: "set (Add x s) = insert x (set s)"
  by (auto simp: Add_def)

lemma distinct_fold_add_entry:
  "distinct (fst acc) \<Longrightarrow> distinct (fst (fold add_entry es acc))"
  by (induction es arbitrary: acc) (simp_all add: add_entry_def case_prod_beta Let_def distinct_Add)

lemma distinct_mesh_snapshot: "distinct (fst (mesh_snapshot st))"
  by (simp add: mesh_snapshot_def distinct_fold_add_entry add_entry_def case_prod_beta Let_def
      distinct_Add NewSet_def)

lemma distinct_fold_add_record:
  "distinct (fst acc) \<Longrightarrow> distinct (fst (fold add_record rs acc))"
  by (induction rs arbitrary: acc) (simp_all add: add_record_def case_prod_beta Let_def distinct_Add)

lemma distinct_managed_snapshot: "distinct (fst (managed_snapshot rs))"
  by (simp add: managed_snapshot_def distinct_fold_add_record NewSet_def)

lemma mset_SymmetricDifference:
  assumes "distinct s" and "distinct t"
  shows "mset (SymmetricDifference s t) = mset_set ((set s - set t) \<union> (set t - set s))"
proof -
  have "distinct (SymmetricDifference s t)"
    using assms by (auto simp: SymmetricDifference_def Contains_def)
  then show ?thesis
    by (metis mset_set_set SymmetricDifference_set)
qed




lemma sync_listed:
  assumes "ListDNSRecords api p list_params = (Inr records, p')"
  shows "sync ToSlice api st (world0 p) =
           (if ToSlice (ReconciliationSet st records) = []
            then \<lparr>provider = p', events = [(CallList list_params, ResList (Inr records))],
                  logs = [LogSyncStart, LogNoHost]\<rparr>
            else Printf LogSyncEnd
                   (fold (sync_name api (fst (mesh_snapshot st)) (snd (mesh_snapshot st))
                            (fst (managed_snapshot records)) (snd (managed_snapshot records)))
                      (ToSlice (ReconciliationSet st records))
                      \<lparr>provider = p', events = [(CallList list_params, ResList (Inr records))],
                       logs = [LogSyncStart]\<rparr>))"
  using assms
  by (simp add: sync_def ReconciliationSet_def case_prod_beta Let_def world_defs)


lemma mesh_ab: "fst (mesh_snapshot st_ab) = [''a'', ''b'']"
  "snd (mesh_snapshot st_ab) ''a'' = Some ''100.64.0.1''"
  "snd (mesh_snapshot st_ab) ''b'' = Some ''100.64.0.2''"
  by (simp_all add: st_ab_def eval_defs)

lemma managed_bc_ids: "snd (managed_snapshot zone_bc) ''b'' = Some ''id-b''"
  "snd (managed_snapshot zone_bc) ''c'' = Some ''id-c''"
  by (simp_all add: zone_bc_def eval_defs)

lemma recon_ab: "ReconciliationSet st_ab zone_bc = [''a'', ''c'']"
  by (simp add: ReconciliationSet_def mesh_ab managed_bc SymmetricDifference_def Contains_def)


lemma zone_delete_ok:
  "DeleteDNSRecord (zone_api cfail never nid) z rid = (None, filter (\<lambda>r. ID r \<noteq> rid) z)"
  by (simp add: zone_api_def never_def)


lemma zone_create_ok:
  "CreateDNSRecord (zone_api never dfail nid) z r = (Inr (r\<lparr>ID := nid z r\<rparr>), z @ [r\<lparr>ID := nid z r\<rparr>])"
  by (simp add: zone_api_def never_def Let_def)

lemma sync_name_ab:
  "sync_name api [''a'', ''b''] (snd (mesh_snapshot st_ab)) [''b'', ''c'']
     (snd (managed_snapshot zone_bc)) ''a'' w =
   \<lparr>provider = snd (CreateDNSRecord api (provider w) (create_record_params ''a'' ''100.64.0.1'')),
    events = events w @
      [(CallCreate (create_record_params ''a'' ''100.64.0.1''),
        ResCreate (fst (CreateDNSRecord api (provider w) (create_record_params ''a'' ''100.64.0.1''))))],
    logs = logs w @
      [LogNeedAdd ''a'',
       case fst (CreateDNSRecord api (provider w) (create_record_params ''a'' ''100.64.0.1'')) of
         Inl err \<Rightarrow> LogCreateErr err | Inr _ \<Rightarrow> LogAdded ''a'']\<rparr>"
  "sync_name api [''a'', ''b''] (snd (mesh_snapshot st_ab)) [''b'', ''c'']
     (snd (managed_snapshot zone_bc)) ''c'' w =
   \<lparr>provider = snd (DeleteDNSRecord api (provider w) ''id-c''),
    events = events w @
      [(CallDelete ''id-c'', ResDelete (fst (DeleteDNSRecord api (provider w) ''id-c'')))],
    logs = logs w @
      [LogNeedRemove ''c'',
       case fst (DeleteDNSRecord api (provider w) ''id-c'') of
         Some err \<Rightarrow> LogDeleteErr err | None \<Rightarrow> LogRemoved ''c'']\<rparr>"
  by (rule sync_name_create sync_name_delete; simp add: Contains_def mesh_ab managed_bc_ids)+


lemma run_ab_ok:
  "sync rev (zone_api never never id_of_name) st_ab (world0 zone_bc) =
     \<lparr>provider = [managed ''id-b'' ''b.int.example.com'' ''100.64.0.2'',
                  managed ''new-a.int'' ''a.int'' ''100.64.0.1''],
      events = [(CallList list_params, ResList (Inr zone_bc)),
                (CallDelete ''id-c'', ResDelete None),
                (CallCreate (create_record_params ''a'' ''100.64.0.1''),
                 ResCreate (Inr (managed ''new-a.int'' ''a.int'' ''100.64.0.1'')))],
      logs = [LogSyncStart, LogNeedRemove ''c'', LogRemoved ''c'', LogNeedAdd ''a'',
              LogAdded ''a'', LogSyncEnd]\<rparr>"
  by (simp add: sync_listed [OF list_bc] recon_ab mesh_ab(1) managed_bc sync_name_ab
      zone_delete_ok zone_create_ok Printf_def)
     (simp add: zone_bc_def managed_def create_record_params_def id_of_name_def
        CloudflareDomainSuffix_def)


section \<open>The two snapshots\<close>

lemma add_ips_lookup:
  "add_ips name ips m k =
     (if k = name \<and> filter Is4 ips \<noteq> [] then Some (ip_String (last (filter Is4 ips))) else m k)"
  by (induction ips arbitrary: m rule: rev_induct) (auto simp: add_ips_def)

lemma add_entry_snd:
  "snd (add_entry e acc) n =
     (if n \<noteq> [] \<and> getName (DNSName e) = n \<and> v4_addrs e \<noteq> []
      then Some (last (v4_addrs e)) else snd acc n)"
  by (auto simp: add_entry_def case_prod_beta Let_def add_ips_lookup v4_addrs_def last_map)

lemma add_entry_fst:
  "set (fst (add_entry e acc)) = set (fst acc) \<union> ({getName (DNSName e)} - {[]})"
  by (auto simp: add_entry_def case_prod_beta Let_def set_Add)

lemma fold_add_entry_fst:
  "set (fst (fold add_entry es acc)) =
     set (fst acc) \<union> ((\<lambda>e. getName (DNSName e)) ` set es - {[]})"
  by (induction es arbitrary: acc) (auto simp: add_entry_fst)

lemma fold_add_entry_keep:
  "\<forall>y\<in>set ys. getName (DNSName y) = n \<longrightarrow> v4_addrs y = [] \<Longrightarrow>
   snd (fold add_entry ys acc) n = snd acc n"
  by (induction ys arbitrary: acc) (auto simp: add_entry_snd)

lemma mesh_snapshot_entries:
  "mesh_snapshot st = fold add_entry (entries st) (NewSet, Map.empty)"
  by (simp add: mesh_snapshot_def entries_def)

lemma mesh_snapshot_names:
  "set (fst (mesh_snapshot st)) = (\<lambda>e. getName (DNSName e)) ` set (entries st) - {[]}"
  by (simp add: mesh_snapshot_entries fold_add_entry_fst NewSet_def)

lemma fold_add_entry_last:
  assumes "getName (DNSName e) = n" and "n \<noteq> []" and "v4_addrs e \<noteq> []"
    and "\<forall>y\<in>set ys. getName (DNSName y) = n \<longrightarrow> v4_addrs y = []"
  shows "snd (fold add_entry (xs @ e # ys) acc) n = Some (last (v4_addrs e))"
  using assms by (simp add: fold_add_entry_keep add_entry_snd)

text \<open>
  C5 (amended). The loops of lines 80-84 and 93-97 have no \<open>break\<close>: every IPv4 address
  of the entry is stored in turn, so the one that stays is the last. For a mesh entry with
  a nonempty normalized name and at least one IPv4 address, after which no entry of the same
  normalized name with an IPv4 address is observed, the mesh snapshot has the name in its
  name set and maps it to the last IPv4 address of the entry's address list.
\<close>

theorem mesh_snapshot_last_v4:
  assumes "entries st = xs @ e # ys"
    and "getName (DNSName e) = n" and "n \<noteq> []" and "v4_addrs e \<noteq> []"
    and "\<forall>y\<in>set ys. getName (DNSName y) = n \<longrightarrow> v4_addrs y = []"
  shows "n \<in> set (fst (mesh_snapshot st))
         \<and> snd (mesh_snapshot st) n = Some (last (v4_addrs e))"
proof
  show "n \<in> set (fst (mesh_snapshot st))"
    using assms(1,2,3) by (force simp: mesh_snapshot_names)
  show "snd (mesh_snapshot st) n = Some (last (v4_addrs e))"
    unfolding mesh_snapshot_entries assms(1)
    by (rule fold_add_entry_last [OF assms(2-5)])
qed

lemma mesh_two_v4:
  "getName (DNSName (Self st_two_v4)) = ''a''"
  "v4_addrs (Self st_two_v4) = [''100.64.0.1'', ''100.64.0.9'']"
  "snd (mesh_snapshot st_two_v4) ''a'' = Some ''100.64.0.9''"
  by (simp_all add: st_two_v4_def v4_addrs_def eval_defs)

theorem mesh_snapshot_last_v4_witness:
  "''a'' \<in> set (fst (mesh_snapshot st_two_v4))
   \<and> snd (mesh_snapshot st_two_v4) ''a'' = Some ''100.64.0.9''"
proof -
  have "entries st_two_v4 = [] @ Self st_two_v4 # []"
    by (simp add: entries_def st_two_v4_def)
  from mesh_snapshot_last_v4 [OF this mesh_two_v4(1)] show ?thesis
    by (simp add: mesh_two_v4)
qed

text \<open>
  With the first IPv4 address instead of the last, the statement fails on a node with two
  IPv4 addresses: the directory holds the second.
\<close>

theorem mesh_snapshot_first_v4_counterexample:
  "getName (DNSName (Self st_two_v4)) \<noteq> []
   \<and> v4_addrs (Self st_two_v4) \<noteq> []
   \<and> snd (mesh_snapshot st_two_v4) (getName (DNSName (Self st_two_v4)))
       \<noteq> Some (hd (v4_addrs (Self st_two_v4)))"
  by (simp add: mesh_two_v4)

text \<open>
  C8 (amended). Two entries, observed in this order, normalize to the same nonempty name,
  and no entry observed after the later one has that name and an IPv4 address. If the
  later entry has an IPv4 address, the directory maps the name to the later entry's (last)
  IPv4 address: it overwrites. If the later entry has no IPv4 address it overwrites
  nothing: when the earlier entry has one (and no entry of that name in between has), the
  directory still maps the name to the earlier entry's address.
\<close>

theorem mesh_snapshot_overwrite:
  assumes "entries st = xs @ e1 # ys @ e2 # zs"
    and "getName (DNSName e1) = n" and "getName (DNSName e2) = n" and "n \<noteq> []"
    and "\<forall>z\<in>set zs. getName (DNSName z) = n \<longrightarrow> v4_addrs z = []"
  shows "(v4_addrs e2 \<noteq> [] \<longrightarrow> snd (mesh_snapshot st) n = Some (last (v4_addrs e2)))
       \<and> (v4_addrs e2 = [] \<and> v4_addrs e1 \<noteq> []
            \<and> (\<forall>y\<in>set ys. getName (DNSName y) = n \<longrightarrow> v4_addrs y = [])
          \<longrightarrow> snd (mesh_snapshot st) n = Some (last (v4_addrs e1)))"
proof (intro conjI impI)
  assume "v4_addrs e2 \<noteq> []"
  from fold_add_entry_last [OF assms(3,4) this assms(5), of "xs @ e1 # ys"]
  show "snd (mesh_snapshot st) n = Some (last (v4_addrs e2))"
    by (simp add: mesh_snapshot_entries assms(1))
next
  assume a: "v4_addrs e2 = [] \<and> v4_addrs e1 \<noteq> []
            \<and> (\<forall>y\<in>set ys. getName (DNSName y) = n \<longrightarrow> v4_addrs y = [])"
  then have "\<forall>y\<in>set (ys @ e2 # zs). getName (DNSName y) = n \<longrightarrow> v4_addrs y = []"
    using assms(5) by auto
  from fold_add_entry_last [OF assms(2,4) _ this, of xs] a
  show "snd (mesh_snapshot st) n = Some (last (v4_addrs e1))"
    by (simp add: mesh_snapshot_entries assms(1))
qed

lemma mesh_xx:
  "entries st_xx = [] @ node ''x.tail.ts.net.'' [v4 ''100.64.0.7''] # []
                      @ node ''x.other.ts.net.'' [v6 ''fd7a::7''] # []"
  "getName (DNSName (node ''x.tail.ts.net.'' [v4 ''100.64.0.7''])) = ''x''"
  "getName (DNSName (node ''x.other.ts.net.'' [v6 ''fd7a::7''])) = ''x''"
  "v4_addrs (node ''x.tail.ts.net.'' [v4 ''100.64.0.7'']) = [''100.64.0.7'']"
  "v4_addrs (node ''x.other.ts.net.'' [v6 ''fd7a::7'']) = []"
  by (simp_all add: st_xx_def entries_def v4_addrs_def eval_defs)

lemma mesh_xx4:
  "entries st_xx4 = [] @ node ''x.tail.ts.net.'' [v4 ''100.64.0.7''] # []
                      @ node ''x.other.ts.net.'' [v4 ''100.64.0.8''] # []"
  "getName (DNSName (node ''x.other.ts.net.'' [v4 ''100.64.0.8''])) = ''x''"
  "v4_addrs (node ''x.other.ts.net.'' [v4 ''100.64.0.8'']) = [''100.64.0.8'']"
  by (simp_all add: st_xx4_def entries_def v4_addrs_def eval_defs)

theorem mesh_snapshot_overwrite_witness:
  "snd (mesh_snapshot st_xx4) ''x'' = Some ''100.64.0.8''
   \<and> snd (mesh_snapshot st_xx) ''x'' = Some ''100.64.0.7''"
proof
  from mesh_snapshot_overwrite [OF mesh_xx4(1) mesh_xx(2) mesh_xx4(2)]
  show "snd (mesh_snapshot st_xx4) ''x'' = Some ''100.64.0.8''"
    by (simp add: mesh_xx4)
  from mesh_snapshot_overwrite [OF mesh_xx(1) mesh_xx(2) mesh_xx(3)]
  show "snd (mesh_snapshot st_xx) ''x'' = Some ''100.64.0.7''"
    by (simp add: mesh_xx)
qed

text \<open>
  Without the condition on the later entry the statement fails: when the later entry has
  no IPv4 address, the directory maps the name to the address of the earlier entry.
\<close>

theorem mesh_snapshot_overwrite_counterexample:
  "entries st_xx = [node ''x.tail.ts.net.'' [v4 ''100.64.0.7''],
                    node ''x.other.ts.net.'' [v6 ''fd7a::7'']]
   \<and> getName (DNSName (node ''x.tail.ts.net.'' [v4 ''100.64.0.7''])) = ''x''
   \<and> getName (DNSName (node ''x.other.ts.net.'' [v6 ''fd7a::7''])) = ''x''
   \<and> v4_addrs (node ''x.other.ts.net.'' [v6 ''fd7a::7'']) = []
   \<and> snd (mesh_snapshot st_xx) ''x'' = Some ''100.64.0.7''
   \<and> ''100.64.0.7'' \<in> set (v4_addrs (node ''x.tail.ts.net.'' [v4 ''100.64.0.7'']))"
  by (simp add: st_xx_def entries_def v4_addrs_def eval_defs)

lemma add_record_fst:
  "set (fst (add_record r acc)) = set (fst acc) \<union> ({getName (Name r)} - {[]})"
  by (auto simp: add_record_def case_prod_beta Let_def set_Add)

lemma add_record_snd:
  "snd (add_record r acc) n =
     (if n \<noteq> [] \<and> getName (Name r) = n then Some (ID r) else snd acc n)"
  by (auto simp: add_record_def case_prod_beta Let_def)

lemma fold_add_record_fst:
  "set (fst (fold add_record rs acc)) =
     set (fst acc) \<union> ((\<lambda>r. getName (Name r)) ` set rs - {[]})"
  by (induction rs arbitrary: acc) (auto simp: add_record_fst)

lemma managed_snapshot_names:
  "set (fst (managed_snapshot rs)) = (\<lambda>r. getName (Name r)) ` set rs - {[]}"
  by (simp add: managed_snapshot_def fold_add_record_fst NewSet_def)

lemma fold_add_record_lookup:
  "snd (fold add_record rs acc) n = Some rid \<Longrightarrow>
   snd acc n = Some rid \<or> (\<exists>r\<in>set rs. getName (Name r) = n \<and> ID r = rid)"
  by (induction rs arbitrary: acc) (fastforce simp: add_record_snd split: if_splits)+

lemma managed_snapshot_lookup:
  "snd (managed_snapshot rs) n = Some rid \<Longrightarrow> \<exists>r\<in>set rs. getName (Name r) = n \<and> ID r = rid"
  using fold_add_record_lookup [of rs "(NewSet, Map.empty)" n rid]
  by (simp add: managed_snapshot_def)

lemma fold_add_record_dom:
  "dom (snd (fold add_record rs acc)) =
     dom (snd acc) \<union> ((\<lambda>r. getName (Name r)) ` set rs - {[]})"
  by (induction rs arbitrary: acc) (auto simp: add_record_snd dom_def split: if_splits)

lemma managed_snapshot_dom:
  "dom (snd (managed_snapshot rs)) = set (fst (managed_snapshot rs))"
  by (simp add: managed_snapshot_names) (simp add: managed_snapshot_def fold_add_record_dom)

lemma decided_create:
  "CallCreate r \<in> set (decided ts tsMap cf cfMap n) \<Longrightarrow>
   \<exists>ip. tsMap n = Some ip \<and> r = create_record_params n ip"
  unfolding decided_def
  by (cases "Contains ts n"; cases "Contains cf n"; cases "tsMap n"; cases "cfMap n") simp_all

lemma decided_delete:
  "CallDelete rid \<in> set (decided ts tsMap cf cfMap n) \<Longrightarrow>
   \<not> Contains ts n \<and> Contains cf n \<and> cfMap n = Some rid"
  unfolding decided_def
  by (cases "Contains ts n"; cases "Contains cf n"; cases "tsMap n"; cases "cfMap n") simp_all

lemma decided_no_list: "CallList ps \<notin> set (decided ts tsMap cf cfMap n)"
  unfolding decided_def
  by (cases "Contains ts n"; cases "Contains cf n"; cases "tsMap n"; cases "cfMap n") simp_all

text \<open>
  C7 (amended). Some mesh entry normalizes to the nonempty name \<open>x\<close>, no mesh entry that
  normalizes to \<open>x\<close> has an IPv4 address, the listing succeeds and no listed record
  normalizes to \<open>x\<close>. Then \<open>x\<close> is in the reconciliation set, the loop body leaves the world
  as it is on \<open>x\<close> (the lookup of line 125 is guarded by \<open>ok\<close>), no create call of the cycle
  is for \<open>x\<close>, every delete call of the cycle is for the record of another name, and the
  cycle runs to its end.
\<close>

theorem sync_skips_without_address:
  assumes "slice_order ToSlice"
    and "ListDNSRecords api p list_params = (Inr records, p')"
    and "e \<in> set (entries st)" and "getName (DNSName e) = x" and "x \<noteq> []"
    and "\<forall>y\<in>set (entries st). getName (DNSName y) = x \<longrightarrow> v4_addrs y = []"
    and "\<forall>r\<in>set records. getName (Name r) \<noteq> x"
  shows "x \<in> set (ReconciliationSet st records)
       \<and> (\<forall>w. sync_name api (fst (mesh_snapshot st)) (snd (mesh_snapshot st))
                 (fst (managed_snapshot records)) (snd (managed_snapshot records)) x w = w)
       \<and> (\<forall>r. CallCreate r \<in> set (calls (sync ToSlice api st (world0 p))) \<longrightarrow>
               Name r \<noteq> x @ CloudflareDomainSuffix)
       \<and> (\<forall>rid. CallDelete rid \<in> set (calls (sync ToSlice api st (world0 p))) \<longrightarrow>
               (\<exists>m. m \<noteq> x \<and> snd (managed_snapshot records) m = Some rid))
       \<and> last (logs (sync ToSlice api st (world0 p))) = LogSyncEnd"
proof (intro conjI allI impI)
  let ?ts = "fst (mesh_snapshot st)" and ?tsMap = "snd (mesh_snapshot st)"
  let ?cf = "fst (managed_snapshot records)" and ?cfMap = "snd (managed_snapshot records)"
  let ?run = "sync ToSlice api st (world0 p)"
  have ts: "x \<in> set ?ts"
    using assms(3,4,5) by (force simp: mesh_snapshot_names)
  have cf: "x \<notin> set ?cf"
    using assms(7) by (auto simp: managed_snapshot_names)
  have none: "?tsMap x = None"
    using fold_add_entry_keep [OF assms(6), of "(NewSet, Map.empty)"]
    by (simp add: mesh_snapshot_entries)
  show x: "x \<in> set (ReconciliationSet st records)"
    using ts cf by (simp add: ReconciliationSet_def SymmetricDifference_set)
  show "sync_name api ?ts ?tsMap ?cf ?cfMap x w = w" for w
    using ts none by (simp add: sync_name_skip Contains_def)
  note cs = calls_sync [OF assms(1,2), of st]
  show "Name r \<noteq> x @ CloudflareDomainSuffix"
    if "CallCreate r \<in> set (calls ?run)" for r
  proof -
    from that obtain n where "CallCreate r \<in> set (decided ?ts ?tsMap ?cf ?cfMap n)"
      unfolding cs by auto
    then obtain ip where ip: "?tsMap n = Some ip" "r = create_record_params n ip"
      using decided_create by blast
    with none have "n \<noteq> x" by auto
    with ip(2) show ?thesis by (simp add: create_record_params_def)
  qed
  show "\<exists>m. m \<noteq> x \<and> ?cfMap m = Some rid"
    if "CallDelete rid \<in> set (calls ?run)" for rid
  proof -
    from that obtain n where "CallDelete rid \<in> set (decided ?ts ?tsMap ?cf ?cfMap n)"
      unfolding cs by auto
    then have "Contains ?cf n" "?cfMap n = Some rid"
      using decided_delete by blast+
    with cf show ?thesis by (auto simp: Contains_def)
  qed
  show "last (logs ?run) = LogSyncEnd"
    using x by (intro logs_sync_end [OF assms(1,2)]) auto
qed

lemma list_empty:
  "ListDNSRecords (zone_api cfail dfail nid) [] list_params = (Inr [], [])"
  by (simp add: zone_api_def page_of_def)

lemma mesh_x:
  "Self st_x \<in> set (entries st_x)"
  "getName (DNSName (Self st_x)) = ''x''"
  "\<forall>y\<in>set (entries st_x). getName (DNSName y) = ''x'' \<longrightarrow> v4_addrs y = []"
  by (simp_all add: st_x_def entries_def v4_addrs_def eval_defs)

lemma names_bc: "\<forall>r\<in>set zone_bc. getName (Name r) \<noteq> ''x''"
  by (simp add: zone_bc_def eval_defs)

theorem sync_skips_without_address_witness:
  "''x'' \<in> set (ReconciliationSet st_x zone_bc)
   \<and> CallCreate (create_record_params ''x'' ''fd7a::7'')
        \<notin> set (calls (sync rev (zone_api never never id_of_name) st_x (world0 zone_bc)))
   \<and> last (logs (sync rev (zone_api never never id_of_name) st_x (world0 zone_bc))) = LogSyncEnd"
  using sync_skips_without_address [OF slice_order_rev list_bc mesh_x(1,2) _ mesh_x(3) names_bc,
      of never never id_of_name]
  by (auto simp: create_record_params_def)

lemma mesh_xx_dir:
  "fst (mesh_snapshot st_xx) = [''x'']"
  "snd (mesh_snapshot st_xx) ''x'' = Some ''100.64.0.7''"
  by (simp_all add: st_xx_def eval_defs)

text \<open>
  The condition is on the name, not on one peer. When a peer has no IPv4 address and
  another entry normalizes to the same name and has one, the create call for the name is
  issued: here the second observed entry has no IPv4 address and the zone has no record.
\<close>

theorem sync_skips_without_address_counterexample:
  "node ''x.other.ts.net.'' [v6 ''fd7a::7''] \<in> set (entries st_xx)
   \<and> getName (DNSName (node ''x.other.ts.net.'' [v6 ''fd7a::7''])) = ''x''
   \<and> v4_addrs (node ''x.other.ts.net.'' [v6 ''fd7a::7'']) = []
   \<and> ListDNSRecords (zone_api never never id_of_name) [] list_params = (Inr [], [])
   \<and> calls (sync rev (zone_api never never id_of_name) st_xx (world0 [])) =
       [CallList list_params, CallCreate (create_record_params ''x'' ''100.64.0.7'')]"
proof -
  have "ReconciliationSet st_xx [] = [''x'']"
    by (simp add: ReconciliationSet_def mesh_xx_dir managed_snapshot_def NewSet_def
        SymmetricDifference_def Contains_def)
  then have "calls (sync rev (zone_api never never id_of_name) st_xx (world0 [])) =
       [CallList list_params, CallCreate (create_record_params ''x'' ''100.64.0.7'')]"
    by (simp add: calls_sync [OF slice_order_rev list_empty] decided_def mesh_xx_dir Contains_def)
  then show ?thesis
    by (simp add: mesh_xx list_empty st_xx_def entries_def)
qed

lemma calls_after_listing:
  assumes "slice_order ToSlice"
    and "ListDNSRecords api p list_params = (Inr records, p')"
  shows "\<exists>rest. calls (sync ToSlice api st (world0 p)) = CallList list_params # rest
           \<and> (\<forall>c\<in>set rest. \<forall>ps. c \<noteq> CallList ps)"
  unfolding calls_sync [OF assms] using decided_no_list by fastforce

lemma managed_snapshot_present:
  assumes "r \<in> set rs" and "getName (Name r) \<noteq> []"
  shows "\<exists>r'\<in>set rs. getName (Name r') = getName (Name r)
           \<and> snd (managed_snapshot rs) (getName (Name r)) = Some (ID r')"
proof -
  have "getName (Name r) \<in> dom (snd (managed_snapshot rs))"
    using assms by (auto simp: managed_snapshot_dom managed_snapshot_names)
  then obtain rid where "snd (managed_snapshot rs) (getName (Name r)) = Some rid" by auto
  with managed_snapshot_lookup [OF this] show ?thesis by auto
qed

text \<open>
  C6 (amended). \<open>sync\<close> issues one listing request per cycle, for at most 1000 records per
  page and with no page number, and never a second one; the result information returned
  with the records is discarded (line 100). Every record this request returns whose
  normalized name is nonempty is in the managed directory: its name is in the name set, and
  the name is mapped to the identifier of a returned record of that name.
\<close>

theorem managed_snapshot_of_listing:
  assumes "slice_order ToSlice"
    and "ListDNSRecords api p list_params = (Inr records, p')"
    and "r \<in> set records" and "getName (Name r) \<noteq> []"
  shows "(\<exists>rest. calls (sync ToSlice api st (world0 p)) = CallList list_params # rest
           \<and> (\<forall>c\<in>set rest. \<forall>ps. c \<noteq> CallList ps))
       \<and> lp_Page list_params = 0 \<and> lp_PerPage list_params = 1000
       \<and> getName (Name r) \<in> set (fst (managed_snapshot records))
       \<and> (\<exists>r'\<in>set records. getName (Name r') = getName (Name r)
            \<and> snd (managed_snapshot records) (getName (Name r)) = Some (ID r'))"
  using calls_after_listing [OF assms(1,2)] managed_snapshot_present [OF assms(3,4)] assms(3,4)
  by (auto simp: list_params_def managed_snapshot_names)

section \<open>Two cycles in a row\<close>

lemma toLowerChar_idem: "toLowerChar (toLowerChar c) = toLowerChar c"
proof (cases "65 \<le> (of_char c :: nat) \<and> (of_char c :: nat) \<le> 90")
  case True
  then have "of_char (char_of (of_char c + 32 :: nat)) = (of_char c + 32 :: nat)"
    by (simp add: of_char_of)
  with True show ?thesis by (simp add: toLowerChar_def Let_def)
next
  case False
  then show ?thesis by (auto simp: toLowerChar_def Let_def)
qed

lemma getName_suffix: "getName (getName s @ CloudflareDomainSuffix) = getName s"
proof -
  let ?m = "first_segment s"
  have nodot: "\<forall>c\<in>set (ToLower ?m). c \<noteq> CHR ''.''"
    by (auto simp: ToLower_def first_segment_def toLowerChar_dot dest: set_takeWhileD)
  then have "first_segment (ToLower ?m @ CloudflareDomainSuffix) = ToLower ?m"
    by (simp add: first_segment_def CloudflareDomainSuffix_def takeWhile_append2)
  then show ?thesis
    by (simp add: getName_first) (simp add: ToLower_def toLowerChar_idem)
qed

lemma succeeded_create_step:
  assumes "\<forall>q r. \<exists>r'. fst (CreateDNSRecord api q r) = Inr r'"
    and "\<forall>ev\<in>set (events w). succeeded (snd ev)"
  shows "\<forall>ev\<in>set (events (snd (create_step api ts tsMap n w))). succeeded (snd ev)"
proof (cases "Contains ts n")
  case False
  then show ?thesis using assms(2) by (simp add: create_step_def)
next
  case True
  show ?thesis
  proof (cases "tsMap n")
    case None
    then show ?thesis using True assms(2) by (simp add: create_step_def)
  next
    case (Some ip)
    obtain r' where "fst (CreateDNSRecord api (provider w) (create_record_params n ip)) = Inr r'"
      using assms(1) by blast
    then show ?thesis
      using True Some assms(2)
      by (simp add: create_step_def world_defs case_prod_beta Let_def succeeded_def)
  qed
qed

lemma succeeded_delete_step:
  assumes "\<forall>q rid. fst (DeleteDNSRecord api q rid) = None"
    and "\<forall>ev\<in>set (events w). succeeded (snd ev)"
  shows "\<forall>ev\<in>set (events (delete_step api cf cfMap n w)). succeeded (snd ev)"
proof (cases "Contains cf n")
  case False
  then show ?thesis using assms(2) by (simp add: delete_step_def)
next
  case True
  show ?thesis
  proof (cases "cfMap n")
    case None
    then show ?thesis using True assms(2) by (simp add: delete_step_def)
  next
    case (Some rid)
    have "fst (DeleteDNSRecord api (provider w) rid) = None"
      using assms(1) by blast
    then show ?thesis
      using True Some assms(2)
      by (simp add: delete_step_def world_defs case_prod_beta Let_def succeeded_def)
  qed
qed

lemma succeeded_sync_name:
  assumes "\<forall>q r. \<exists>r'. fst (CreateDNSRecord api q r) = Inr r'"
    and "\<forall>q rid. fst (DeleteDNSRecord api q rid) = None"
    and "\<forall>ev\<in>set (events w). succeeded (snd ev)"
  shows "\<forall>ev\<in>set (events (sync_name api ts tsMap cf cfMap n w)). succeeded (snd ev)"
proof -
  note c = succeeded_create_step [OF assms(1,3), of ts tsMap n]
  from succeeded_delete_step [OF assms(2) c, of cf cfMap n] c
  show ?thesis
    by (simp add: sync_name_def case_prod_beta)
qed

lemma succeeded_fold_sync_name:
  assumes "\<forall>q r. \<exists>r'. fst (CreateDNSRecord api q r) = Inr r'"
    and "\<forall>q rid. fst (DeleteDNSRecord api q rid) = None"
  shows "\<forall>ev\<in>set (events w). succeeded (snd ev) \<Longrightarrow>
         \<forall>ev\<in>set (events (fold (sync_name api ts tsMap cf cfMap) ns w)). succeeded (snd ev)"
proof (induction ns arbitrary: w)
  case Nil
  then show ?case by simp
next
  case (Cons n ns)
  from succeeded_sync_name [OF assms Cons.prems]
  have "\<forall>ev\<in>set (events (sync_name api ts tsMap cf cfMap n w)). succeeded (snd ev)" .
  from Cons.IH [OF this] show ?case by simp
qed

lemma fold_apply_event:
  "\<forall>ev\<in>set evs. succeeded (snd ev) \<Longrightarrow>
   fold (apply_event new_id) evs z = fold (apply_call new_id) (map fst evs) z"
  by (induction evs arbitrary: z) (simp_all add: apply_event_def)

lemma apply_call_member:
  "r \<in> set (fold (apply_call nid) cs z) \<Longrightarrow>
   (r \<in> set z \<and> CallDelete (ID r) \<notin> set cs)
   \<or> (\<exists>c. CallCreate c \<in> set cs \<and> Name r = Name c)"
proof (induction cs arbitrary: z)
  case Nil
  then show ?case by simp
next
  case (Cons x cs)
  from Cons.IH [of "apply_call nid x z"] Cons.prems
  show ?case
    by (cases x) (auto simp: apply_call_def)
qed

lemma apply_call_kept:
  "r \<in> set z \<Longrightarrow> CallDelete (ID r) \<notin> set cs \<Longrightarrow> r \<in> set (fold (apply_call nid) cs z)"
proof (induction cs arbitrary: z)
  case Nil
  then show ?case by simp
next
  case (Cons x cs)
  then show ?case
    by (cases x) (auto simp: apply_call_def)
qed

lemma apply_call_created:
  assumes "\<forall>z r. CallDelete (nid z r) \<notin> set cs0"
  shows "set cs \<subseteq> set cs0 \<Longrightarrow> CallCreate c \<in> set cs \<Longrightarrow>
         \<exists>r\<in>set (fold (apply_call nid) cs z). Name r = Name c"
proof (induction cs arbitrary: z)
  case Nil
  then show ?case by simp
next
  case (Cons x cs)
  show ?case
  proof (cases "x = CallCreate c")
    case True
    let ?r = "c\<lparr>ID := nid z c\<rparr>"
    have "CallDelete (ID ?r) \<notin> set cs"
      using assms Cons.prems(1) by auto
    then have "?r \<in> set (fold (apply_call nid) cs (z @ [?r]))"
      by (intro apply_call_kept) simp_all
    moreover have "apply_call nid x z = z @ [?r]"
      using True by (simp add: apply_call_def)
    ultimately show ?thesis
      by (simp only: fold_simps) (rule bexI [of _ ?r], simp)
  next
    case False
    with Cons.prems have "CallCreate c \<in> set cs" "set cs \<subseteq> set cs0" by auto
    from Cons.IH [OF this(2,1)] show ?thesis by simp
  qed
qed

lemma decided_create_ts:
  "CallCreate r \<in> set (decided ts tsMap cf cfMap n) \<Longrightarrow> Contains ts n"
  unfolding decided_def
  by (cases "Contains ts n"; cases "Contains cf n"; cases "tsMap n"; cases "cfMap n") simp_all

lemma succeeded_sync:
  assumes "ListDNSRecords api p list_params = (Inr records, p')"
    and "\<forall>q r. \<exists>r'. fst (CreateDNSRecord api q r) = Inr r'"
    and "\<forall>q rid. fst (DeleteDNSRecord api q rid) = None"
  shows "\<forall>ev\<in>set (events (sync ToSlice api st (world0 p))). succeeded (snd ev)"
proof -
  let ?w2 = "\<lparr>provider = p', events = [(CallList list_params, ResList (Inr records))],
              logs = [LogSyncStart]\<rparr>"
  have "\<forall>ev\<in>set (events ?w2). succeeded (snd ev)"
    by (simp add: succeeded_def)
  from succeeded_fold_sync_name [OF assms(2,3) this]
  show ?thesis
    by (simp add: sync_listed [OF assms(1)] Printf_def succeeded_def)
qed

lemma apply_call_list: "apply_call nid (CallList ps) z = z"
  by (simp add: apply_call_def)

lemma mesh_name_normal:
  assumes "n \<in> set (fst (mesh_snapshot st))"
  shows "n \<noteq> [] \<and> getName (n @ CloudflareDomainSuffix) = n"
proof -
  from assms have "n \<in> (\<lambda>e. getName (DNSName e)) ` set (entries st)" "n \<noteq> []"
    by (simp_all add: mesh_snapshot_names)
  then obtain e :: PeerStatus where "n = getName (DNSName e)" "n \<noteq> []"
    by blast
  then show ?thesis by (simp add: getName_suffix)
qed

text \<open>
  C4 (amended). Every name of the mesh name set has an address in the mesh directory; the
  listed records have pairwise different identifiers and pairwise different normalized
  names; the listing and every create and delete call succeed; the provider gives a created
  record an identifier that no listed record has. If the second cycle sees the same mesh and
  the records of the first listing changed by exactly the creates and deletes of the first
  cycle, its reconciliation set is empty.
\<close>

theorem sync_twice:
  assumes "slice_order ToSlice"
    and "ListDNSRecords api p list_params = (Inr records, p')"
    and "\<forall>n\<in>set (fst (mesh_snapshot st)). snd (mesh_snapshot st) n \<noteq> None"
    and "inj_on ID (set records)"
    and "inj_on (\<lambda>r. getName (Name r)) (set records)"
    and "\<forall>q r. \<exists>r'. fst (CreateDNSRecord api q r) = Inr r'"
    and "\<forall>q rid. fst (DeleteDNSRecord api q rid) = None"
    and "\<forall>z r. new_id z r \<notin> ID ` set records"
  shows "ReconciliationSet st
           (records_after new_id (events (sync ToSlice api st (world0 p))) records) = []"
proof -
  let ?ts = "fst (mesh_snapshot st)" and ?tsMap = "snd (mesh_snapshot st)"
  let ?cf = "fst (managed_snapshot records)" and ?cfMap = "snd (managed_snapshot records)"
  let ?ns = "ToSlice (ReconciliationSet st records)"
  let ?cs = "concat (map (decided ?ts ?tsMap ?cf ?cfMap) ?ns)"
  let ?recs2 = "records_after new_id (events (sync ToSlice api st (world0 p))) records"
  have ns: "set ?ns = (set ?ts - set ?cf) \<union> (set ?cf - set ?ts)"
    using assms(1) by (simp add: slice_order_set ReconciliationSet_def SymmetricDifference_set)
  have recs2: "?recs2 = fold (apply_call new_id) ?cs records"
    unfolding records_after_def
    by (simp add: fold_apply_event [OF succeeded_sync [OF assms(2,6,7)]]
        calls_sync [OF assms(1,2), unfolded calls_def] apply_call_list)
  have create_in: "CallCreate (create_record_params n ip) \<in> set ?cs"
    if "n \<in> set ?ts" "n \<notin> set ?cf" "?tsMap n = Some ip" for n ip
  proof -
    have "decided ?ts ?tsMap ?cf ?cfMap n = [CallCreate (create_record_params n ip)]"
      using that by (simp add: decided_def Contains_def)
    moreover have "n \<in> set ?ns" using that ns by simp
    ultimately show ?thesis by force
  qed
  have create_out: "\<exists>n ip. n \<in> set ?ts \<and> c = create_record_params n ip"
    if "CallCreate c \<in> set ?cs" for c
  proof -
    from that obtain n where "CallCreate c \<in> set (decided ?ts ?tsMap ?cf ?cfMap n)" by auto
    from decided_create [OF this] decided_create_ts [OF this] show ?thesis
      by (auto simp: Contains_def)
  qed
  have delete_in: "CallDelete rid \<in> set ?cs"
    if "n \<in> set ?cf" "n \<notin> set ?ts" "?cfMap n = Some rid" for n rid
  proof -
    have "decided ?ts ?tsMap ?cf ?cfMap n = [CallDelete rid]"
      using that by (simp add: decided_def Contains_def)
    moreover have "n \<in> set ?ns" using that ns by simp
    ultimately show ?thesis by force
  qed
  have delete_out: "\<exists>r\<in>set records. ID r = rid \<and> getName (Name r) \<notin> set ?ts"
    if "CallDelete rid \<in> set ?cs" for rid
  proof -
    from that obtain n where "CallDelete rid \<in> set (decided ?ts ?tsMap ?cf ?cfMap n)" by auto
    from decided_delete [OF this] have "n \<notin> set ?ts" "?cfMap n = Some rid"
      by (simp_all add: Contains_def)
    with managed_snapshot_lookup [OF this(2)] show ?thesis by auto
  qed
  have fresh: "\<forall>z r. CallDelete (new_id z r) \<notin> set ?cs"
    using delete_out assms(8) by (metis image_eqI)
  have "set ?ts = set (fst (managed_snapshot ?recs2))"
  proof (intro equalityI subsetI)
    fix n assume n: "n \<in> set ?ts"
    note nn = mesh_name_normal [OF n]
    show "n \<in> set (fst (managed_snapshot ?recs2))"
    proof (cases "n \<in> set ?cf")
      case True
      then obtain r where r: "r \<in> set records" "getName (Name r) = n"
        by (auto simp: managed_snapshot_names)
      have "CallDelete (ID r) \<notin> set ?cs"
      proof
        assume "CallDelete (ID r) \<in> set ?cs"
        from delete_out [OF this] obtain r' where
          "r' \<in> set records" "ID r' = ID r" "getName (Name r') \<notin> set ?ts" by auto
        with r assms(4) n show False by (auto dest: inj_onD)
      qed
      from apply_call_kept [OF r(1) this] r(2) nn show ?thesis
        by (force simp: recs2 managed_snapshot_names)
    next
      case False
      from n assms(3) obtain ip where "?tsMap n = Some ip" by auto
      from create_in [OF n False this]
      have "CallCreate (create_record_params n ip) \<in> set ?cs" .
      from apply_call_created [OF fresh subset_refl this, of records]
      obtain r where "r \<in> set ?recs2" "Name r = n @ CloudflareDomainSuffix"
        by (auto simp: recs2 create_record_params_def)
      with nn show ?thesis
        by (force simp: managed_snapshot_names)
    qed
  next
    fix m assume "m \<in> set (fst (managed_snapshot ?recs2))"
    then obtain r where r: "r \<in> set ?recs2" "getName (Name r) = m" "m \<noteq> []"
      by (auto simp: managed_snapshot_names)
    from apply_call_member [OF r(1) [unfolded recs2]]
    show "m \<in> set ?ts"
    proof
      assume a: "r \<in> set records \<and> CallDelete (ID r) \<notin> set ?cs"
      show ?thesis
      proof (rule ccontr)
        assume m: "m \<notin> set ?ts"
        have mcf: "m \<in> set ?cf"
          using a r(2,3) by (force simp: managed_snapshot_names)
        then obtain rid where rid: "?cfMap m = Some rid"
          using managed_snapshot_dom [of records] by auto
        from managed_snapshot_lookup [OF this] obtain r' where
          "r' \<in> set records" "getName (Name r') = m" "ID r' = rid" by auto
        with a r(2) assms(5) have "rid = ID r" by (auto dest: inj_onD)
        with delete_in [OF mcf m rid] a show False by simp
      qed
    next
      assume "\<exists>c. CallCreate c \<in> set ?cs \<and> Name r = Name c"
      then obtain c where c: "CallCreate c \<in> set ?cs" "Name r = Name c" by auto
      from create_out [OF c(1)] obtain n ip where
        n: "n \<in> set ?ts" "c = create_record_params n ip" by auto
      from mesh_name_normal [OF n(1)] n(2) c(2) r(2) have "m = n"
        by (simp add: create_record_params_def)
      with n(1) show ?thesis by simp
    qed
  qed
  then show ?thesis
    by (simp add: ReconciliationSet_def SymmetricDifference_same)
qed

lemma mesh_x_dir:
  "fst (mesh_snapshot st_x) = [''x'']"
  "snd (mesh_snapshot st_x) ''x'' = None"
  by (simp_all add: st_x_def eval_defs)

lemma recon_x: "ReconciliationSet st_x [] = [''x'']"
  by (simp add: ReconciliationSet_def mesh_x_dir managed_snapshot_def NewSet_def
      SymmetricDifference_def Contains_def)

lemma run_x:
  "sync rev (zone_api never never id_of_name) st_x (world0 []) =
     \<lparr>provider = [], events = [(CallList list_params, ResList (Inr []))],
      logs = [LogSyncStart, LogSyncEnd]\<rparr>"
  by (simp add: sync_listed [OF list_empty] recon_x mesh_x_dir sync_name_skip Contains_def
      Printf_def)

text \<open>
  For an arbitrary mesh view the statement fails, on a node without an IPv4 address: the
  first cycle skips the name (line 127) and issues nothing, and the second cycle finds the
  same name in its reconciliation set.
\<close>

theorem sync_twice_counterexample:
  "sync rev (zone_api never never id_of_name) st_x (world0 []) =
     \<lparr>provider = [], events = [(CallList list_params, ResList (Inr []))],
      logs = [LogSyncStart, LogSyncEnd]\<rparr>
   \<and> records_after id_of_name
        (events (sync rev (zone_api never never id_of_name) st_x (world0 []))) [] = []
   \<and> ReconciliationSet st_x
        (records_after id_of_name
           (events (sync rev (zone_api never never id_of_name) st_x (world0 []))) []) = [''x'']"
  by (simp add: run_x records_after_def apply_event_def apply_call_def succeeded_def recon_x)

theorem sync_twice_witness:
  "ReconciliationSet st_ab
     (records_after id_of_name
        (events (sync rev (zone_api never never id_of_name) st_ab (world0 zone_bc))) zone_bc) = []
   \<and> records_after id_of_name
        (events (sync rev (zone_api never never id_of_name) st_ab (world0 zone_bc))) zone_bc =
      provider (sync rev (zone_api never never id_of_name) st_ab (world0 zone_bc))"
proof
  have 3: "\<forall>n\<in>set (fst (mesh_snapshot st_ab)). snd (mesh_snapshot st_ab) n \<noteq> None"
    by (simp add: mesh_ab)
  have 4: "inj_on ID (set zone_bc)"
    by (simp add: zone_bc_def managed_def)
  have 5: "inj_on (\<lambda>r. getName (Name r)) (set zone_bc)"
    by (simp add: zone_bc_def eval_defs)
  have 6: "\<forall>q r. \<exists>r'. fst (CreateDNSRecord (zone_api never never id_of_name) q r) = Inr r'"
    by (simp add: zone_create_ok)
  have 7: "\<forall>q rid. fst (DeleteDNSRecord (zone_api never never id_of_name) q rid) = None"
    by (simp add: zone_delete_ok)
  have 8: "\<forall>z r. id_of_name z r \<notin> ID ` set zone_bc"
    by (simp add: id_of_name_def zone_bc_def managed_def)
  from sync_twice [OF slice_order_rev list_bc 3 4 5 6 7 8]
  show "ReconciliationSet st_ab
     (records_after id_of_name
        (events (sync rev (zone_api never never id_of_name) st_ab (world0 zone_bc))) zone_bc) = []" .
  show "records_after id_of_name
        (events (sync rev (zone_api never never id_of_name) st_ab (world0 zone_bc))) zone_bc =
      provider (sync rev (zone_api never never id_of_name) st_ab (world0 zone_bc))"
    by (simp add: run_ab_ok records_after_def apply_event_def apply_call_def succeeded_def)
       (simp add: zone_bc_def managed_def create_record_params_def id_of_name_def
          CloudflareDomainSuffix_def)
qed

section \<open>A cycle with nothing to do\<close>

lemma fold_add_entry_dom:
  "dom (snd (fold add_entry es acc)) \<subseteq>
     dom (snd acc) \<union> ((\<lambda>e. getName (DNSName e)) ` set es - {[]})"
proof (induction es arbitrary: acc)
  case Nil
  then show ?case by simp
next
  case (Cons e es)
  have "dom (snd (add_entry e acc)) \<subseteq> dom (snd acc) \<union> ({getName (DNSName e)} - {[]})"
    by (auto simp: add_entry_snd split: if_splits)
  with Cons.IH [of "add_entry e acc"] show ?case by auto
qed

lemma mesh_snapshot_dom: "dom (snd (mesh_snapshot st)) \<subseteq> set (fst (mesh_snapshot st))"
  using fold_add_entry_dom [of "entries st" "(NewSet, Map.empty)"]
  by (simp add: mesh_snapshot_names) (simp add: mesh_snapshot_entries)

lemma fold_unchanged: "(\<And>n w. n \<in> set ns \<Longrightarrow> f n w = w) \<Longrightarrow> fold f ns w = w"
  by (induction ns) simp_all

text \<open>
  C10. The listing succeeds and the key set of the mesh directory equals the key set of the
  managed directory. Whether the key set of the mesh directory is read as the mesh name set
  (the set the symmetric difference of line 118 is taken of) or as the keys of the address
  mapping, the listing is the only API call of the cycle: no create and no delete is
  issued, and the provider is left in the state the listing returned.
\<close>

theorem sync_in_sync:
  assumes "slice_order ToSlice"
    and "ListDNSRecords api p list_params = (Inr records, p')"
    and "set (fst (mesh_snapshot st)) = set (fst (managed_snapshot records))
         \<or> dom (snd (mesh_snapshot st)) = dom (snd (managed_snapshot records))"
  shows "calls (sync ToSlice api st (world0 p)) = [CallList list_params]
         \<and> provider (sync ToSlice api st (world0 p)) = p'"
proof -
  let ?ts = "fst (mesh_snapshot st)" and ?tsMap = "snd (mesh_snapshot st)"
  let ?cf = "fst (managed_snapshot records)" and ?cfMap = "snd (managed_snapshot records)"
  let ?ns = "ToSlice (ReconciliationSet st records)"
  let ?w2 = "\<lparr>provider = p', events = [(CallList list_params, ResList (Inr records))],
              logs = [LogSyncStart]\<rparr>"
  have skip: "sync_name api ?ts ?tsMap ?cf ?cfMap n w = w" if "n \<in> set ?ns" for n w
  proof -
    from that assms(1) have n: "n \<in> (set ?ts - set ?cf) \<union> (set ?cf - set ?ts)"
      by (simp add: slice_order_set ReconciliationSet_def SymmetricDifference_set)
    from assms(3) show ?thesis
    proof
      assume "set ?ts = set ?cf"
      with n show ?thesis by simp
    next
      assume d: "dom ?tsMap = dom ?cfMap"
      then have "dom ?tsMap = set ?cf" by (simp add: managed_snapshot_dom)
      with n mesh_snapshot_dom [of st] have "n \<in> set ?ts" "?tsMap n = None" by auto
      then show ?thesis by (simp add: sync_name_skip Contains_def)
    qed
  qed
  have "fold (sync_name api ?ts ?tsMap ?cf ?cfMap) ?ns ?w2 = ?w2"
    by (rule fold_unchanged) (rule skip)
  then show ?thesis
    by (simp add: sync_listed [OF assms(2)] calls_def Printf_def)
qed

lemma mesh_bcx:
  "fst (mesh_snapshot st_bcx) = [''b'', ''x'', ''c'']"
  "dom (snd (mesh_snapshot st_bcx)) = {''b'', ''c''}"
  by (auto simp: st_bcx_def eval_defs dom_def split: if_splits)

lemma managed_bc_dom: "dom (snd (managed_snapshot zone_bc)) = {''b'', ''c''}"
  by (simp add: managed_snapshot_dom managed_bc)

theorem sync_in_sync_witness:
  "calls (sync rev (zone_api never never id_of_name) st_bc (world0 zone_bc)) = [CallList list_params]
   \<and> provider (sync rev (zone_api never never id_of_name) st_bc (world0 zone_bc)) = zone_bc
   \<and> calls (sync rev (zone_api never never id_of_name) st_bcx (world0 zone_bc)) = [CallList list_params]
   \<and> provider (sync rev (zone_api never never id_of_name) st_bcx (world0 zone_bc)) = zone_bc"
proof -
  have 1: "set (fst (mesh_snapshot st_bc)) = set (fst (managed_snapshot zone_bc))
           \<or> dom (snd (mesh_snapshot st_bc)) = dom (snd (managed_snapshot zone_bc))"
    by (simp add: mesh_bc managed_bc)
  have 2: "set (fst (mesh_snapshot st_bcx)) = set (fst (managed_snapshot zone_bc))
           \<or> dom (snd (mesh_snapshot st_bcx)) = dom (snd (managed_snapshot zone_bc))"
    by (simp add: mesh_bcx managed_bc_dom)
  from sync_in_sync [OF slice_order_rev list_bc 1] sync_in_sync [OF slice_order_rev list_bc 2]
  show ?thesis by simp
qed

section \<open>A zone with more records than one page\<close>

lemma dec_digits: "c \<in> set (dec n) \<Longrightarrow> 48 \<le> (of_char c :: nat) \<and> (of_char c :: nat) \<le> 57"
proof (induction n rule: dec.induct)
  case (1 n)
  have d: "(of_char (char_of (48 + k :: nat)) :: nat) = 48 + k" if "k < 10" for k
    using that by (simp add: of_char_of)
  show ?case
  proof (cases "n < 10")
    case True
    with "1.prems" d [of n] show ?thesis
      by (subst (asm) dec.simps) simp
  next
    case False
    have "n mod 10 < 10" by simp
    from d [OF this] "1.prems" "1.IH" False show ?thesis
      by (subst (asm) dec.simps) auto
  qed
qed

lemma host_chars:
  assumes "c \<in> set (host i)"
  shows "c \<noteq> CHR ''.'' \<and> toLowerChar c = c"
proof (cases "c = CHR ''h''")
  case True
  then show ?thesis by (simp add: toLowerChar_def)
next
  case False
  with assms have "c \<in> set (dec i)" by (simp add: host_def)
  from dec_digits [OF this] show ?thesis
    by (auto simp: toLowerChar_def)
qed

lemma getName_host: "getName (host i @ CHR ''.'' # rest) = host i"
proof -
  have "first_segment (host i @ CHR ''.'' # rest) = host i"
    using host_chars [of _ i] by (simp add: first_segment_def takeWhile_append2)
  moreover have "ToLower (host i) = host i"
    using host_chars [of _ i] by (simp add: ToLower_def map_idI)
  ultimately show ?thesis by (simp add: getName_first)
qed

lemma host_not_z: "host i \<noteq> ''z''" "host i \<noteq> []"
  by (simp_all add: host_def)

lemma host_record_name: "getName (Name (host_record i)) = host i"
  using getName_host [of i "''int.example.com''"] by (simp add: host_record_def managed_def)

lemma host_node_name: "getName (DNSName (host_node i)) = host i"
  using getName_host [of i "''tail.ts.net.''"] by (simp add: host_node_def node_def)

lemma list_1001:
  "ListDNSRecords (zone_api cfail dfail nid) zone_1001 list_params =
     (Inr (map host_record [0..<1000]), zone_1001)"
proof -
  have "\<forall>r\<in>set zone_1001. Comment r = CloudflareSyncDNSComment"
    by (auto simp: zone_1001_def host_record_def managed_def)
  then have "filter (\<lambda>r. Comment r = CloudflareSyncDNSComment) zone_1001 = zone_1001"
    by (simp only: filter_True)
  moreover have "take 1000 zone_1001 = map host_record [0..<1000]"
    by (simp add: zone_1001_def)
  ultimately show ?thesis
    by (simp add: zone_api_def page_of_def list_params_def)
qed

lemma host_names:
  "(\<lambda>r. getName (Name r)) ` set (map host_record [0..<1000]) - {[]} = host ` {0..<1000}"
  "(\<lambda>e. getName (DNSName e)) ` set (map host_node [0..<1000]) - {[]} = host ` {0..<1000}"
proof -
  have "host ` {0..<1000} - {[]} = host ` {0..<1000}"
    using host_not_z(2) by auto
  then show
    "(\<lambda>r. getName (Name r)) ` set (map host_record [0..<1000]) - {[]} = host ` {0..<1000}"
    "(\<lambda>e. getName (DNSName e)) ` set (map host_node [0..<1000]) - {[]} = host ` {0..<1000}"
    by (simp_all add: image_image host_record_name host_node_name)
qed

lemma managed_1000:
  "set (fst (managed_snapshot (map host_record [0..<1000]))) = host ` {0..<1000}"
  "''z'' \<notin> set (fst (managed_snapshot (map host_record [0..<1000])))"
  "snd (managed_snapshot (map host_record [0..<1000])) ''z'' = None"
proof -
  show 1: "set (fst (managed_snapshot (map host_record [0..<1000]))) = host ` {0..<1000}"
    by (simp only: managed_snapshot_names host_names)
  show 2: "''z'' \<notin> set (fst (managed_snapshot (map host_record [0..<1000])))"
  proof
    assume "''z'' \<in> set (fst (managed_snapshot (map host_record [0..<1000])))"
    with 1 obtain i where "host i = ''z''" by auto
    with host_not_z(1) [of i] show False by simp
  qed
  from 2 show "snd (managed_snapshot (map host_record [0..<1000])) ''z'' = None"
    using managed_snapshot_dom [of "map host_record [0..<1000]"] by auto
qed

lemma mesh_1001:
  "set (fst (mesh_snapshot st_1001)) = insert ''z'' (host ` {0..<1000})"
  "snd (mesh_snapshot st_1001) ''z'' = Some ''100.64.0.26''"
proof -
  have z: "getName (DNSName (node ''z.tail.ts.net.'' [v4 ''100.64.0.26''])) = ''z''"
    by (simp add: eval_defs)
  have e: "entries st_1001 = [] @ node ''z.tail.ts.net.'' [v4 ''100.64.0.26''] # map host_node [0..<1000]"
    by (simp add: entries_def st_1001_def)
  have "set (fst (mesh_snapshot st_1001)) =
          ({''z''} - {[]}) \<union> ((\<lambda>e. getName (DNSName e)) ` set (map host_node [0..<1000]) - {[]})"
    unfolding mesh_snapshot_names e using z by auto
  then show "set (fst (mesh_snapshot st_1001)) = insert ''z'' (host ` {0..<1000})"
    by (simp only: host_names) simp
  have "\<forall>y\<in>set (map host_node [0..<1000]). getName (DNSName y) = ''z'' \<longrightarrow> v4_addrs y = []"
    using host_not_z(1) by (auto simp: host_node_name)
  from fold_add_entry_last [OF z _ _ this, of "[]" "(NewSet, Map.empty)"]
  show "snd (mesh_snapshot st_1001) ''z'' = Some ''100.64.0.26''"
    by (simp add: mesh_snapshot_entries e) (simp add: v4_addrs_def node_def v4_def)
qed

lemma recon_1001: "ReconciliationSet st_1001 (map host_record [0..<1000]) = [''z'']"
proof -
  let ?ts = "fst (mesh_snapshot st_1001)"
  let ?cf = "fst (managed_snapshot (map host_record [0..<1000]))"
  have "(set ?ts - set ?cf) \<union> (set ?cf - set ?ts) = {''z''}"
    using managed_1000(2) by (auto simp: mesh_1001 managed_1000(1))
  then have "mset (SymmetricDifference ?ts ?cf) = {#''z''#}"
    by (simp add: mset_SymmetricDifference distinct_mesh_snapshot distinct_managed_snapshot)
  then show ?thesis
    by (simp add: ReconciliationSet_def mset_single_iff_right)
qed

lemma dec_not_Nil: "dec n \<noteq> []"
  by (subst dec.simps) simp

lemma digit_inj: "j < 10 \<Longrightarrow> k < 10 \<Longrightarrow> char_of (48 + j :: nat) = char_of (48 + k) \<Longrightarrow> j = k"
proof -
  assume a: "j < 10" "k < 10" "char_of (48 + j :: nat) = char_of (48 + k)"
  then have "(of_char (char_of (48 + j)) :: nat) = of_char (char_of (48 + k))" by simp
  with a(1,2) show "j = k" by (simp add: of_char_of)
qed

lemma dec_inj: "dec m = dec n \<Longrightarrow> m = n"
proof (induction m arbitrary: n rule: dec.induct)
  case (1 m)
  show ?case
  proof (cases "m < 10")
    case True
    then have m: "dec m = [char_of (48 + m)]" by (subst dec.simps) simp
    show ?thesis
    proof (cases "n < 10")
      case n: True
      then have "dec n = [char_of (48 + n)]" by (subst dec.simps) simp
      with m "1.prems" True n show ?thesis by (auto dest: digit_inj)
    next
      case False
      then have "dec n = dec (n div 10) @ [char_of (48 + n mod 10)]" by (subst dec.simps) simp
      with m "1.prems" dec_not_Nil [of "n div 10"] show ?thesis by auto
    qed
  next
    case False
    then have m: "dec m = dec (m div 10) @ [char_of (48 + m mod 10)]" by (subst dec.simps) simp
    show ?thesis
    proof (cases "n < 10")
      case True
      then have "dec n = [char_of (48 + n)]" by (subst dec.simps) simp
      with m "1.prems" dec_not_Nil [of "m div 10"] show ?thesis by auto
    next
      case n: False
      then have "dec n = dec (n div 10) @ [char_of (48 + n mod 10)]" by (subst dec.simps) simp
      with m "1.prems" have eq: "dec (m div 10) = dec (n div 10)"
        "char_of (48 + m mod 10 :: nat) = char_of (48 + n mod 10)" by simp_all
      from "1.IH" [OF False eq(1)] have "m div 10 = n div 10" .
      moreover from digit_inj [OF _ _ eq(2)] have "m mod 10 = n mod 10" by simp
      ultimately show ?thesis by (metis div_mult_mod_eq)
    qed
  qed
qed

lemma dec_not_z: "dec i \<noteq> ''z''"
proof
  assume "dec i = ''z''"
  then have "CHR ''z'' \<in> set (dec i)" by simp
  from dec_digits [OF this] show False by simp
qed

lemma zone_1001_ids: "distinct (map ID zone_1001)" "length zone_1001 = 1001"
proof -
  have "inj_on (\<lambda>i. ''id-'' @ dec i) (set [0..<1000])"
    by (auto simp: inj_on_def dest: dec_inj)
  then have "distinct (map (\<lambda>i. ''id-'' @ dec i) [0..<1000])"
    by (simp add: distinct_map)
  moreover have ids: "map ID (map host_record [0..<1000]) = map (\<lambda>i. ''id-'' @ dec i) [0..<1000]"
    by (simp add: host_record_def managed_def)
  ultimately have "distinct (map ID (map host_record [0..<1000]))"
    by (simp only:)
  moreover have "''id-z'' \<notin> set (map ID (map host_record [0..<1000]))"
    unfolding ids by (auto simp: dec_not_z [symmetric])
  ultimately show "distinct (map ID zone_1001)"
    by (simp add: zone_1001_def managed_def del: map_map)
  show "length zone_1001 = 1001" by (simp add: zone_1001_def)
qed

lemma host_0: "host 0 = ''h0''"
  by code_simp

theorem managed_snapshot_of_listing_witness:
  "''h0'' \<in> set (fst (managed_snapshot (map host_record [0..<1000])))
   \<and> lp_Page list_params = 0 \<and> lp_PerPage list_params = 1000"
proof -
  have r: "host_record 0 \<in> set (map host_record [0..<1000])"
    by simp
  have n: "getName (Name (host_record 0)) \<noteq> []"
    by (simp add: host_record_name host_not_z)
  from managed_snapshot_of_listing [OF slice_order_rev list_1001 r n,
      of never never id_of_name st_1001]
  show ?thesis by (simp add: host_record_name host_0)
qed

text \<open>
  Records on a later result page are not covered. The zone has 1001 managed records with
  different identifiers and the mesh has the 1001 names. With a provider that answers a
  request with the requested page only, the listing returns the first 1000 records; the
  record of \<open>z\<close>, the last one, is not in the managed directory, and \<open>sync\<close> creates a second
  record for \<open>z\<close>.
\<close>

theorem managed_snapshot_all_pages_counterexample:
  "managed ''id-z'' ''z.int.example.com'' ''100.64.0.26'' \<in> set zone_1001
   \<and> Comment (managed ''id-z'' ''z.int.example.com'' ''100.64.0.26'') = CloudflareSyncDNSComment
   \<and> getName (Name (managed ''id-z'' ''z.int.example.com'' ''100.64.0.26'')) = ''z''
   \<and> length zone_1001 = 1001 \<and> distinct (map ID zone_1001)
   \<and> fst (ListDNSRecords (zone_api never never id_of_name) zone_1001 list_params) =
       Inr (map host_record [0..<1000])
   \<and> ''z'' \<notin> set (fst (managed_snapshot (map host_record [0..<1000])))
   \<and> snd (managed_snapshot (map host_record [0..<1000])) ''z'' = None
   \<and> calls (sync rev (zone_api never never id_of_name) st_1001 (world0 zone_1001)) =
       [CallList list_params, CallCreate (create_record_params ''z'' ''100.64.0.26'')]"
proof -
  have "''z'' \<in> set (fst (mesh_snapshot st_1001))"
    by (simp add: mesh_1001)
  then have "decided (fst (mesh_snapshot st_1001)) (snd (mesh_snapshot st_1001))
          (fst (managed_snapshot (map host_record [0..<1000])))
          (snd (managed_snapshot (map host_record [0..<1000]))) ''z'' =
        [CallCreate (create_record_params ''z'' ''100.64.0.26'')]"
    by (simp add: decided_def Contains_def mesh_1001)
  then have "calls (sync rev (zone_api never never id_of_name) st_1001 (world0 zone_1001)) =
       [CallList list_params, CallCreate (create_record_params ''z'' ''100.64.0.26'')]"
    by (simp add: calls_sync [OF slice_order_rev list_1001] recon_1001)
  moreover have "getName (Name (managed ''id-z'' ''z.int.example.com'' ''100.64.0.26'')) = ''z''"
    by (simp add: eval_defs)
  moreover have "managed ''id-z'' ''z.int.example.com'' ''100.64.0.26'' \<in> set zone_1001"
    by (simp add: zone_1001_def)
  moreover have "Comment (managed ''id-z'' ''z.int.example.com'' ''100.64.0.26'') =
      CloudflareSyncDNSComment"
    by (simp add: managed_def)
  ultimately show ?thesis
    by (simp add: list_1001 managed_1000(2,3) zone_1001_ids)
qed

end
